theory Spec2Isabelle
  imports Main
begin

section \<open>Run-length encoded lines\<close>

text \<open>
  A run is a pair \<open>(length, value)\<close>; the length has the unsigned \<open>CounterType\<close> of the
  image, so it is a natural number. A line (\<open>RLLine\<close>) is the vector of the runs of one
  scanline.
\<close>

type_synonym 'v RLLine = "(nat \<times> 'v) list"

text \<open>
  Two things can go wrong in the source: the debug-build assertion of \<open>operator++\<close>,
  and \<open>operator[]\<close> of the run vector applied outside \<open>[0, size)\<close>, which C++ leaves
  undefined. Both are results of the model.
\<close>

datatype fault = AssertionFailed | OutOfRange

definition runAt :: "'v RLLine \<Rightarrow> int \<Rightarrow> fault + (nat \<times> 'v)" where
  "runAt line i =
     (if 0 \<le> i \<and> i < int (length line) then Inr (line ! nat i) else Inl OutOfRange)"

text \<open>The decoded pixels of a line, its width, and the column where run \<open>j\<close> starts.\<close>

fun decode :: "'v RLLine \<Rightarrow> 'v list" where
  "decode [] = []"
| "decode (r # rs) = replicate (fst r) (snd r) @ decode rs"

fun width :: "'v RLLine \<Rightarrow> nat" where
  "width [] = 0"
| "width (r # rs) = fst r + width rs"

definition runStart :: "'v RLLine \<Rightarrow> nat \<Rightarrow> nat" where
  "runStart line j = width (take j line)"

definition pixelAt :: "'v RLLine \<Rightarrow> int \<Rightarrow> 'v option" where
  "pixelAt line i =
     (if 0 \<le> i \<and> i < int (length (decode line)) then Some (decode line ! nat i) else None)"

definition positiveRuns :: "'v RLLine \<Rightarrow> bool" where
  "positiveRuns line = list_all (\<lambda>r. 1 \<le> fst r) line"

section \<open>The iterator state\<close>

text \<open>
  Modelled from the spec: the line enumerator \<open>m_BI\<close> (section 4.2) is a member of the
  base class, which is not part of the source file. It walks the lines of the region
  in order; \<open>advance\<close> moves to the next line position and the enumerator is exhausted
  once it has moved past the last one.
\<close>

record 'v BufferIterator =
  regionLines :: "'v RLLine list"
  linePosition :: nat

text \<open>
  Modelled from the spec: \<open>advance()\<close> of section 4.2 (\<open>++m_BI\<close>, not part of the source
  file): the move to the next line position.
\<close>

definition advance :: "'v BufferIterator \<Rightarrow> 'v BufferIterator" where
  "advance bi = bi\<lparr>linePosition := linePosition bi + 1\<rparr>"

text \<open>
  Modelled from the spec: \<open>isExhausted()\<close> of section 4.2 (\<open>m_BI.IsAtEnd()\<close>, not part of
  the source file): true once the enumerator has moved past the last line position.
\<close>

definition IsAtEnd :: "'v BufferIterator \<Rightarrow> bool" where
  "IsAtEnd bi = (length (regionLines bi) \<le> linePosition bi)"

text \<open>
  The fields of the iterator. The index fields are signed (\<open>IndexValueType\<close>); they are
  unbounded integers here. The line pointed to by \<open>m_RunLengthLine\<close> is read-only
  during a traversal, so the state holds the line itself.
\<close>

record 'v cursor =
  m_Index0 :: int
  m_BeginIndex0 :: int
  m_EndIndex0 :: int
  m_RealIndex :: int
  m_SegmentRemainder :: int
  m_RunLengthLine :: "'v RLLine"
  m_BI :: "'v BufferIterator"

section \<open>Operations of the scanline iterator\<close>

definition GoToBeginOfLine :: "'v cursor \<Rightarrow> fault + 'v cursor" where
  "GoToBeginOfLine c =
     (let c1 = c\<lparr>m_Index0 := m_BeginIndex0 c\<rparr>;
          c2 = c1\<lparr>m_RealIndex := 0\<rparr>
      in case runAt (m_RunLengthLine c2) (m_RealIndex c2) of
           Inl e \<Rightarrow> Inl e
         | Inr r \<Rightarrow> Inr (c2\<lparr>m_SegmentRemainder := int (fst r)\<rparr>))"

text \<open>
  \<open>size() - 1\<close> is computed in \<open>size_t\<close> and stored in the signed field: for an empty
  line the field receives \<open>-1\<close>, which is also what the integer subtraction gives.
\<close>

definition GoToEndOfLine :: "'v cursor \<Rightarrow> 'v cursor" where
  "GoToEndOfLine c =
     (let c1 = c\<lparr>m_Index0 := m_EndIndex0 c\<rparr>;
          c2 = c1\<lparr>m_RealIndex := int (length (m_RunLengthLine c1)) - 1\<rparr>
      in c2\<lparr>m_SegmentRemainder := 0\<rparr>)"

definition IsAtEndOfLine :: "'v cursor \<Rightarrow> bool" where
  "IsAtEndOfLine c = (m_Index0 c = m_EndIndex0 c)"

text \<open>
  \<open>operator++\<close>. The flag \<open>debug\<close> says whether the build checks
  \<open>itkAssertInDebugAndIgnoreInReleaseMacro\<close>; a release build ignores it.
\<close>

definition increment :: "bool \<Rightarrow> 'v cursor \<Rightarrow> fault + 'v cursor" where
  "increment debug c =
     (if debug \<and> IsAtEndOfLine c then Inl AssertionFailed
      else
        let c1 = c\<lparr>m_Index0 := m_Index0 c + 1\<rparr>;
            c2 = c1\<lparr>m_SegmentRemainder := m_SegmentRemainder c1 - 1\<rparr>
        in if m_SegmentRemainder c2 > 0 then Inr c2
           else if IsAtEndOfLine c2 then Inr c2
           else
             let c3 = c2\<lparr>m_RealIndex := m_RealIndex c2 + 1\<rparr>
             in case runAt (m_RunLengthLine c3) (m_RealIndex c3) of
                  Inl e \<Rightarrow> Inl e
                | Inr r \<Rightarrow> Inr (c3\<lparr>m_SegmentRemainder := int (fst r)\<rparr>))"

text \<open>\<open>operator--\<close>.\<close>

definition decrement :: "'v cursor \<Rightarrow> fault + 'v cursor" where
  "decrement c =
     (let c1 = c\<lparr>m_Index0 := m_Index0 c - 1\<rparr>;
          c2 = c1\<lparr>m_SegmentRemainder := m_SegmentRemainder c1 + 1\<rparr>
      in case runAt (m_RunLengthLine c2) (m_RealIndex c2) of
           Inl e \<Rightarrow> Inl e
         | Inr r \<Rightarrow>
             if m_SegmentRemainder c2 \<le> int (fst r) then Inr c2
             else Inr (c2\<lparr>m_RealIndex := m_RealIndex c2 - 1, m_SegmentRemainder := 1\<rparr>))"

text \<open>
  Modelled from the spec: \<open>value()\<close> of section 4.3, the value of \<open>run[realIndex]\<close>,
  is a member of the base class, which is not part of the source file.
\<close>

definition Get :: "'v cursor \<Rightarrow> fault + 'v" where
  "Get c =
     (case runAt (m_RunLengthLine c) (m_RealIndex c) of
        Inl e \<Rightarrow> Inl e
      | Inr r \<Rightarrow> Inr (snd r))"

text \<open>
  Modelled from the spec: the lookup of section 4.1 and the seek of section 4.3
  (\<open>SetIndexInternal\<close> of the base class, which is not part of the source file). For a
  column inside the line the lookup gives the owning run and the number of pixels from
  the column to the end of that run, the column included; a column outside
  \<open>[0, fullWidth)\<close> and the current line of an exhausted enumerator are undefined in the
  spec, and are faults here.
\<close>

fun locate :: "'v RLLine \<Rightarrow> nat \<Rightarrow> (nat \<times> nat) option" where
  "locate [] col = None"
| "locate (r # rs) col =
     (if col < fst r then Some (0, fst r - col)
      else case locate rs (col - fst r) of
             None \<Rightarrow> None
           | Some (j, n) \<Rightarrow> Some (Suc j, n))"

text \<open>
  Modelled from the spec: \<open>current()\<close> of section 4.2, the line at the enumerator's
  position (not part of the source file); undefined once the enumerator is exhausted.
\<close>

definition current :: "'v BufferIterator \<Rightarrow> fault + 'v RLLine" where
  "current bi =
     (if IsAtEnd bi then Inl OutOfRange else Inr (regionLines bi ! linePosition bi))"

text \<open>
  Modelled from the spec: the seek of section 4.3 (\<open>SetIndexInternal\<close>, not part of the
  source file): it takes the current line of the enumerator and sets the column, the
  owning run and the remainder from the lookup.
\<close>

definition SetIndexInternal :: "'v cursor \<Rightarrow> int \<Rightarrow> fault + 'v cursor" where
  "SetIndexInternal c ind0 =
     (case current (m_BI c) of
        Inl e \<Rightarrow> Inl e
      | Inr line \<Rightarrow>
          if ind0 < 0 then Inl OutOfRange
          else case locate line (nat ind0) of
                 None \<Rightarrow> Inl OutOfRange
               | Some (j, n) \<Rightarrow>
                   Inr (c\<lparr>m_Index0 := ind0, m_RunLengthLine := line,
                          m_RealIndex := int j, m_SegmentRemainder := int n\<rparr>))"

definition NextLine :: "'v cursor \<Rightarrow> fault + 'v cursor" where
  "NextLine c =
     (let c1 = c\<lparr>m_BI := advance (m_BI c)\<rparr>
      in if \<not> IsAtEnd (m_BI c1) then SetIndexInternal c1 (m_BeginIndex0 c1)
         else Inr (c1\<lparr>m_Index0 := m_BeginIndex0 c1\<rparr>))"

text \<open>Calling \<open>NextLine\<close> \<open>n\<close> times in a row, stopping at the first fault.\<close>

fun NextLines :: "nat \<Rightarrow> 'v cursor \<Rightarrow> fault + 'v cursor" where
  "NextLines 0 c = Inr c"
| "NextLines (Suc n) c =
     (case NextLine c of Inl e \<Rightarrow> Inl e | Inr c' \<Rightarrow> NextLines n c')"

section \<open>Traversals of one line\<close>

text \<open>
  Modelled from the spec: the source file has no loop; these are the two traversals of
  a caller that section 8 of the spec describes (properties 1 and 3). A loop stops on
  the first fault; the fuel bounds the number of iterations, and a loop that has not
  finished when the fuel is used up returns \<open>OutOfFuel\<close>.

  Forward: \<open>for (it.GoToBeginOfLine(); !it.IsAtEndOfLine(); ++it) visit(it.Get());\<close>
  Backward: \<open>it.GoToEndOfLine(); while (index0 != beginIndex0) { --it; visit(it.Get()); }\<close>
\<close>

datatype 'a outcome = Done 'a | Fault fault | OutOfFuel

fun visited :: "'v \<Rightarrow> 'v list outcome \<Rightarrow> 'v list outcome" where
  "visited v (Done vs) = Done (v # vs)"
| "visited v (Fault e) = Fault e"
| "visited v OutOfFuel = OutOfFuel"

fun scanForward :: "bool \<Rightarrow> nat \<Rightarrow> 'v cursor \<Rightarrow> 'v list outcome" where
  "scanForward debug 0 c = (if IsAtEndOfLine c then Done [] else OutOfFuel)"
| "scanForward debug (Suc fuel) c =
     (if IsAtEndOfLine c then Done []
      else case Get c of
             Inl e \<Rightarrow> Fault e
           | Inr v \<Rightarrow>
               (case increment debug c of
                  Inl e \<Rightarrow> Fault e
                | Inr c' \<Rightarrow> visited v (scanForward debug fuel c')))"

definition traverseForward :: "bool \<Rightarrow> nat \<Rightarrow> 'v cursor \<Rightarrow> 'v list outcome" where
  "traverseForward debug fuel c =
     (case GoToBeginOfLine c of
        Inl e \<Rightarrow> Fault e
      | Inr c0 \<Rightarrow> scanForward debug fuel c0)"

fun scanBackward :: "nat \<Rightarrow> 'v cursor \<Rightarrow> 'v list outcome" where
  "scanBackward 0 c = (if m_Index0 c = m_BeginIndex0 c then Done [] else OutOfFuel)"
| "scanBackward (Suc fuel) c =
     (if m_Index0 c = m_BeginIndex0 c then Done []
      else case decrement c of
             Inl e \<Rightarrow> Fault e
           | Inr c' \<Rightarrow>
               (case Get c' of
                  Inl e \<Rightarrow> Fault e
                | Inr v \<Rightarrow> visited v (scanBackward fuel c')))"

definition traverseBackward :: "nat \<Rightarrow> 'v cursor \<Rightarrow> 'v list outcome" where
  "traverseBackward fuel c = scanBackward fuel (GoToEndOfLine c)"

section \<open>Consistency of the two coordinate systems\<close>

text \<open>
  The forward-consistent state of section 3 of the spec, in the spec's words: the
  column is inside \<open>[0, endIndex0)\<close>, the cursor is not at the end of the line, the
  remainder is between 1 and the length of the current run, and the pixel at the column
  has the value of the current run.
\<close>

definition forwardConsistent :: "'v cursor \<Rightarrow> bool" where
  "forwardConsistent c =
     (0 \<le> m_Index0 c \<and> m_Index0 c < m_EndIndex0 c \<and> \<not> IsAtEndOfLine c \<and>
      (case runAt (m_RunLengthLine c) (m_RealIndex c) of
         Inl e \<Rightarrow> False
       | Inr r \<Rightarrow>
           1 \<le> m_SegmentRemainder c \<and> m_SegmentRemainder c \<le> int (fst r) \<and>
           pixelAt (m_RunLengthLine c) (m_Index0 c) = Some (snd r)))"

text \<open>
  The remainder is exact: the current run exists and the pixels counted by the
  remainder end where that run ends.
\<close>

definition runAligned :: "'v cursor \<Rightarrow> bool" where
  "runAligned c =
     (0 \<le> m_RealIndex c \<and> m_RealIndex c < int (length (m_RunLengthLine c)) \<and>
      m_Index0 c + m_SegmentRemainder c =
        int (runStart (m_RunLengthLine c) (Suc (nat (m_RealIndex c)))))"

text \<open>A state over a single line, with the enumerator standing on that line.\<close>

definition cursorState :: "'v RLLine \<Rightarrow> int \<Rightarrow> int \<Rightarrow> int \<Rightarrow> int \<Rightarrow> int \<Rightarrow> 'v cursor" where
  "cursorState line b e i r s =
     \<lparr>m_Index0 = i, m_BeginIndex0 = b, m_EndIndex0 = e, m_RealIndex = r,
      m_SegmentRemainder = s, m_RunLengthLine = line,
      m_BI = \<lparr>regionLines = [line], linePosition = 0\<rparr>\<rparr>"

section \<open>Lines and their decoding\<close>

lemma length_decode: "length (decode L) = width L"
  by (induction L) auto

lemma width_append: "width (xs @ ys) = width xs + width ys"
  by (induction xs) auto

lemma runStart_0: "runStart L 0 = 0"
  by (simp add: runStart_def)

lemma runStart_Cons: "runStart (r # rs) (Suc j) = fst r + runStart rs j"
  by (simp add: runStart_def)

lemma runStart_Suc: "j < length L \<Longrightarrow> runStart L (Suc j) = runStart L j + fst (L ! j)"
  by (simp add: runStart_def take_Suc_conv_app_nth width_append)

lemma runStart_length: "runStart L (length L) = width L"
  by (simp add: runStart_def)

lemma runStart_le_width: "runStart L j \<le> width L"
proof -
  have "width L = width (take j L @ drop j L)" by simp
  also have "\<dots> = runStart L j + width (drop j L)"
    unfolding width_append runStart_def ..
  finally show ?thesis by simp
qed

lemma next_run_exists:
  assumes "j < length L" and "runStart L (Suc j) < width L"
  shows "Suc j < length L"
proof (rule ccontr)
  assume "\<not> Suc j < length L"
  with assms(1) have "Suc j = length L" by simp
  with assms(2) show False by (simp add: runStart_length)
qed

lemma positiveRuns_nth: "positiveRuns L \<Longrightarrow> j < length L \<Longrightarrow> 1 \<le> fst (L ! j)"
  by (simp add: positiveRuns_def list_all_length)

lemma decode_nth_run:
  "j < length L \<Longrightarrow> runStart L j \<le> i \<Longrightarrow> i < runStart L (Suc j) \<Longrightarrow>
     decode L ! i = snd (L ! j)"
proof (induction L arbitrary: j i)
  case Nil
  then show ?case by simp
next
  case (Cons r rs)
  show ?case
  proof (cases j)
    case 0
    with Cons.prems show ?thesis
      by (simp add: runStart_def nth_append)
  next
    case (Suc k)
    with Cons.prems have k: "k < length rs"
      and lo: "fst r + runStart rs k \<le> i" and hi: "i < fst r + runStart rs (Suc k)"
      by (simp_all add: runStart_Cons)
    from lo hi have "decode rs ! (i - fst r) = snd (rs ! k)"
      using Cons.IH [OF k, of "i - fst r"] by simp
    with lo Suc show ?thesis
      by (simp add: nth_append)
  qed
qed

lemma aligned_pixel:
  assumes al: "runAligned c" and lo: "1 \<le> m_SegmentRemainder c"
    and hi: "m_SegmentRemainder c \<le> int (fst (m_RunLengthLine c ! nat (m_RealIndex c)))"
  shows "0 \<le> m_Index0 c \<and> m_Index0 c < int (width (m_RunLengthLine c)) \<and>
         pixelAt (m_RunLengthLine c) (m_Index0 c) =
           Some (snd (m_RunLengthLine c ! nat (m_RealIndex c)))"
proof -
  let ?L = "m_RunLengthLine c" and ?j = "nat (m_RealIndex c)"
  from al have j: "?j < length ?L"
    and eq: "m_Index0 c + m_SegmentRemainder c = int (runStart ?L (Suc ?j))"
    by (auto simp: runAligned_def)
  have suc: "runStart ?L (Suc ?j) = runStart ?L ?j + fst (?L ! ?j)"
    using j by (rule runStart_Suc)
  have le: "runStart ?L (Suc ?j) \<le> width ?L" by (rule runStart_le_width)
  from eq suc lo hi have i0: "int (runStart ?L ?j) \<le> m_Index0 c" by linarith
  from eq lo have i1: "m_Index0 c < int (runStart ?L (Suc ?j))" by linarith
  from i0 have nn: "0 \<le> m_Index0 c" by linarith
  from i0 nn have a: "runStart ?L ?j \<le> nat (m_Index0 c)" by linarith
  from i1 nn have b: "nat (m_Index0 c) < runStart ?L (Suc ?j)" by linarith
  have "decode ?L ! nat (m_Index0 c) = snd (?L ! ?j)"
    using j a b by (rule decode_nth_run)
  moreover from i1 le have "m_Index0 c < int (width ?L)" by linarith
  ultimately show ?thesis
    using nn by (simp add: pixelAt_def length_decode)
qed

section \<open>Steps in a consistent state\<close>

lemma consistentI:
  assumes "runAligned c" and "1 \<le> m_SegmentRemainder c"
    and "m_SegmentRemainder c \<le> int (fst (m_RunLengthLine c ! nat (m_RealIndex c)))"
    and "m_Index0 c < m_EndIndex0 c"
  shows "forwardConsistent c"
  using aligned_pixel [OF assms(1-3)] assms
  by (simp add: forwardConsistent_def runAligned_def runAt_def IsAtEndOfLine_def)

lemma consistentD:
  assumes "forwardConsistent c"
  shows "0 \<le> m_RealIndex c" and "m_RealIndex c < int (length (m_RunLengthLine c))"
    and "1 \<le> m_SegmentRemainder c"
    and "m_SegmentRemainder c \<le> int (fst (m_RunLengthLine c ! nat (m_RealIndex c)))"
    and "m_Index0 c < m_EndIndex0 c" and "0 \<le> m_Index0 c"
  using assms
  by (auto simp: forwardConsistent_def runAt_def split: if_splits)

lemma increment_inside_run:
  assumes "\<not> IsAtEndOfLine c" and "1 < m_SegmentRemainder c"
  shows "increment debug c =
           Inr (c\<lparr>m_Index0 := m_Index0 c + 1, m_SegmentRemainder := m_SegmentRemainder c - 1\<rparr>)"
  using assms by (simp add: increment_def Let_def)

lemma increment_to_end:
  assumes "\<not> IsAtEndOfLine c" and "m_Index0 c + 1 = m_EndIndex0 c"
  shows "increment debug c =
           Inr (c\<lparr>m_Index0 := m_Index0 c + 1, m_SegmentRemainder := m_SegmentRemainder c - 1\<rparr>)"
  using assms by (simp add: increment_def Let_def IsAtEndOfLine_def)

lemma increment_next_run:
  assumes "\<not> IsAtEndOfLine c" and "m_SegmentRemainder c \<le> 1"
    and "m_Index0 c + 1 \<noteq> m_EndIndex0 c"
    and "0 \<le> m_RealIndex c + 1" and "m_RealIndex c + 1 < int (length (m_RunLengthLine c))"
  shows "increment debug c =
           Inr (c\<lparr>m_Index0 := m_Index0 c + 1, m_RealIndex := m_RealIndex c + 1,
                  m_SegmentRemainder :=
                    int (fst (m_RunLengthLine c ! nat (m_RealIndex c + 1)))\<rparr>)"
  using assms by (simp add: increment_def Let_def IsAtEndOfLine_def runAt_def)

lemma increment_preserves:
  assumes pos: "positiveRuns (m_RunLengthLine c)"
    and endw: "m_EndIndex0 c \<le> int (width (m_RunLengthLine c))"
    and fc: "forwardConsistent c" and al: "runAligned c"
    and ne: "m_Index0 c + 1 \<noteq> m_EndIndex0 c"
  shows "\<exists>c'. increment debug c = Inr c' \<and> forwardConsistent c' \<and> runAligned c' \<and>
           m_Index0 c' = m_Index0 c + 1 \<and> m_RunLengthLine c' = m_RunLengthLine c \<and>
           m_BeginIndex0 c' = m_BeginIndex0 c \<and> m_EndIndex0 c' = m_EndIndex0 c"
proof -
  let ?L = "m_RunLengthLine c" and ?j = "nat (m_RealIndex c)"
  note d = consistentD [OF fc]
  from fc have notEnd: "\<not> IsAtEndOfLine c" by (simp add: forwardConsistent_def)
  from al have eq: "m_Index0 c + m_SegmentRemainder c = int (runStart ?L (Suc ?j))"
    by (simp add: runAligned_def)
  from d(1,2) have j: "?j < length ?L" by linarith
  show ?thesis
  proof (cases "1 < m_SegmentRemainder c")
    case True
    let ?c' = "c\<lparr>m_Index0 := m_Index0 c + 1, m_SegmentRemainder := m_SegmentRemainder c - 1\<rparr>"
    have step: "increment debug c = Inr ?c'"
      using notEnd True by (rule increment_inside_run)
    have al': "runAligned ?c'" using al by (simp add: runAligned_def)
    have "forwardConsistent ?c'"
      using al' True d ne by (intro consistentI) simp_all
    with step al' show ?thesis by simp
  next
    case False
    with d(3) have one: "m_SegmentRemainder c = 1" by simp
    from eq one d(5) ne endw have "runStart ?L (Suc ?j) < width ?L" by linarith
    with j have nxt: "Suc ?j < length ?L" by (rule next_run_exists)
    let ?c' = "c\<lparr>m_Index0 := m_Index0 c + 1, m_RealIndex := m_RealIndex c + 1,
                  m_SegmentRemainder := int (fst (?L ! nat (m_RealIndex c + 1)))\<rparr>"
    have nat_suc: "nat (m_RealIndex c + 1) = Suc ?j" using d(1) by linarith
    have step: "increment debug c = Inr ?c'"
      using notEnd one ne d(1) nxt by (intro increment_next_run) simp_all
    have "runStart ?L (Suc (Suc ?j)) = runStart ?L (Suc ?j) + fst (?L ! Suc ?j)"
      using nxt by (rule runStart_Suc)
    with eq one nxt d(1) have al': "runAligned ?c'"
      by (simp add: runAligned_def nat_suc)
    have "1 \<le> fst (?L ! Suc ?j)" using pos nxt by (rule positiveRuns_nth)
    then have "forwardConsistent ?c'"
      using al' d ne by (intro consistentI) (simp_all add: nat_suc)
    with step al' show ?thesis by simp
  qed
qed

lemma increment_reaches_end:
  assumes fc: "forwardConsistent c" and e: "m_Index0 c + 1 = m_EndIndex0 c"
  shows "\<exists>c'. increment debug c = Inr c' \<and> IsAtEndOfLine c' \<and>
           m_Index0 c' = m_Index0 c + 1 \<and> m_RunLengthLine c' = m_RunLengthLine c \<and>
           m_BeginIndex0 c' = m_BeginIndex0 c \<and> m_EndIndex0 c' = m_EndIndex0 c"
proof -
  from fc have "\<not> IsAtEndOfLine c" by (simp add: forwardConsistent_def)
  then show ?thesis
    using e increment_to_end [of c debug] by (simp add: IsAtEndOfLine_def)
qed

lemma Get_consistent:
  assumes fc: "forwardConsistent c"
  shows "Get c = Inr (decode (m_RunLengthLine c) ! nat (m_Index0 c)) \<and>
         nat (m_Index0 c) < length (decode (m_RunLengthLine c))"
  using assms
  by (auto simp: forwardConsistent_def Get_def pixelAt_def split: sum.splits if_splits)

section \<open>The traversal loops\<close>

lemma scanForward_at_end: "IsAtEndOfLine c \<Longrightarrow> scanForward debug fuel c = Done []"
  by (cases fuel) simp_all

lemma scanForward_decodes:
  assumes "positiveRuns (m_RunLengthLine c)"
    and "m_EndIndex0 c = int (width (m_RunLengthLine c))"
    and "forwardConsistent c" and "runAligned c"
    and "width (m_RunLengthLine c) \<le> fuel + nat (m_Index0 c)"
  shows "scanForward debug fuel c = Done (drop (nat (m_Index0 c)) (decode (m_RunLengthLine c)))"
  using assms
proof (induction fuel arbitrary: c)
  case 0
  from consistentD(5,6) [OF "0.prems"(3)] "0.prems"(2,5) have False by linarith
  then show ?case ..
next
  case (Suc fuel)
  let ?L = "m_RunLengthLine c" and ?i = "nat (m_Index0 c)"
  note fc = Suc.prems(3)
  note d = consistentD [OF fc]
  from fc have notEnd: "\<not> IsAtEndOfLine c" by (simp add: forwardConsistent_def)
  from Get_consistent [OF fc] have g: "Get c = Inr (decode ?L ! ?i)"
    and i: "?i < length (decode ?L)" by simp_all
  have dropi: "drop ?i (decode ?L) = decode ?L ! ?i # drop (Suc ?i) (decode ?L)"
    using i by (simp add: Cons_nth_drop_Suc)
  show ?case
  proof (cases "m_Index0 c + 1 = m_EndIndex0 c")
    case True
    from increment_reaches_end [OF fc True, of debug]
    obtain c' where step: "increment debug c = Inr c'" and e: "IsAtEndOfLine c'" by blast
    from True Suc.prems(2) d(6) have "Suc ?i = width ?L" by linarith
    then have "drop (Suc ?i) (decode ?L) = []" by (simp add: length_decode)
    with notEnd g step e dropi show ?thesis
      by (simp add: scanForward_at_end)
  next
    case False
    from Suc.prems(2) have endw: "m_EndIndex0 c \<le> int (width ?L)" by simp
    from increment_preserves [OF Suc.prems(1) endw fc Suc.prems(4) False, of debug]
    obtain c' where step: "increment debug c = Inr c'"
      and fc': "forwardConsistent c'" and al': "runAligned c'"
      and i': "m_Index0 c' = m_Index0 c + 1" and L': "m_RunLengthLine c' = ?L"
      and e': "m_EndIndex0 c' = m_EndIndex0 c" by blast
    from i' d(6) have ni: "nat (m_Index0 c') = Suc ?i" by linarith
    have "scanForward debug fuel c' =
            Done (drop (nat (m_Index0 c')) (decode (m_RunLengthLine c')))"
      using Suc.prems(1,2,5) fc' al' L' e' ni by (intro Suc.IH) simp_all
    with notEnd g step dropi ni L' show ?thesis by simp
  qed
qed

lemma GoToBeginOfLine_nonempty:
  assumes "m_RunLengthLine c \<noteq> []"
  shows "GoToBeginOfLine c =
           Inr (c\<lparr>m_Index0 := m_BeginIndex0 c, m_RealIndex := 0,
                  m_SegmentRemainder := int (fst (m_RunLengthLine c ! 0))\<rparr>)"
  using assms by (simp add: GoToBeginOfLine_def runAt_def Let_def)

lemma GoToBeginOfLine_consistent:
  assumes ne: "m_RunLengthLine c \<noteq> []" and pos: "1 \<le> fst (m_RunLengthLine c ! 0)"
    and b: "m_BeginIndex0 c = 0" and e: "0 < m_EndIndex0 c"
  shows "\<exists>c0. GoToBeginOfLine c = Inr c0 \<and> forwardConsistent c0 \<and> runAligned c0 \<and>
           m_Index0 c0 = 0 \<and> m_RunLengthLine c0 = m_RunLengthLine c \<and>
           m_BeginIndex0 c0 = m_BeginIndex0 c \<and> m_EndIndex0 c0 = m_EndIndex0 c"
proof -
  let ?c0 = "c\<lparr>m_Index0 := m_BeginIndex0 c, m_RealIndex := 0,
                m_SegmentRemainder := int (fst (m_RunLengthLine c ! 0))\<rparr>"
  from ne have len: "0 < length (m_RunLengthLine c)" by simp
  have "runStart (m_RunLengthLine c) (Suc 0) = fst (m_RunLengthLine c ! 0)"
    using runStart_Suc [OF len] by (simp add: runStart_0)
  with len b have al: "runAligned ?c0" by (simp add: runAligned_def)
  have "forwardConsistent ?c0"
    using al pos b e by (intro consistentI) simp_all
  with al b GoToBeginOfLine_nonempty [OF ne] show ?thesis by simp
qed

lemma traverseForward_decodes:
  assumes ne: "m_RunLengthLine c \<noteq> []" and pos: "positiveRuns (m_RunLengthLine c)"
    and b: "m_BeginIndex0 c = 0" and e: "m_EndIndex0 c = int (width (m_RunLengthLine c))"
    and fuel: "width (m_RunLengthLine c) \<le> fuel"
  shows "traverseForward debug fuel c = Done (decode (m_RunLengthLine c))"
proof -
  from ne have len: "0 < length (m_RunLengthLine c)" by simp
  have p0: "1 \<le> fst (m_RunLengthLine c ! 0)" using pos len by (rule positiveRuns_nth)
  have "fst (m_RunLengthLine c ! 0) \<le> width (m_RunLengthLine c)"
    using runStart_le_width [of "m_RunLengthLine c" "Suc 0"] runStart_Suc [OF len]
    by (simp add: runStart_0)
  with p0 e have e0: "0 < m_EndIndex0 c" by linarith
  from GoToBeginOfLine_consistent [OF ne p0 b e0]
  obtain c0 where g: "GoToBeginOfLine c = Inr c0"
    and fc: "forwardConsistent c0" and al: "runAligned c0" and i: "m_Index0 c0 = 0"
    and L: "m_RunLengthLine c0 = m_RunLengthLine c" and e': "m_EndIndex0 c0 = m_EndIndex0 c"
    by blast
  have "scanForward debug fuel c0 = Done (drop (nat (m_Index0 c0)) (decode (m_RunLengthLine c0)))"
    using pos e fuel fc al L e' by (intro scanForward_decodes) simp_all
  with g i L show ?thesis by (simp add: traverseForward_def)
qed

lemma decrement_run:
  assumes "0 \<le> m_RealIndex c" and "m_RealIndex c < int (length (m_RunLengthLine c))"
  shows "decrement c =
           Inr (if m_SegmentRemainder c + 1 \<le> int (fst (m_RunLengthLine c ! nat (m_RealIndex c)))
                then c\<lparr>m_Index0 := m_Index0 c - 1,
                       m_SegmentRemainder := m_SegmentRemainder c + 1\<rparr>
                else c\<lparr>m_Index0 := m_Index0 c - 1,
                       m_RealIndex := m_RealIndex c - 1,
                       m_SegmentRemainder := 1\<rparr>)"
  using assms by (simp add: decrement_def runAt_def Let_def)

lemma decrement_aligned:
  assumes pos: "positiveRuns (m_RunLengthLine c)" and al: "runAligned c"
    and lo: "0 \<le> m_SegmentRemainder c"
    and hi: "m_SegmentRemainder c \<le> int (fst (m_RunLengthLine c ! nat (m_RealIndex c)))"
    and i: "0 < m_Index0 c"
  shows "\<exists>c'. decrement c = Inr c' \<and> runAligned c' \<and> 1 \<le> m_SegmentRemainder c' \<and>
           m_SegmentRemainder c' \<le> int (fst (m_RunLengthLine c' ! nat (m_RealIndex c'))) \<and>
           m_Index0 c' = m_Index0 c - 1 \<and> m_RunLengthLine c' = m_RunLengthLine c \<and>
           m_BeginIndex0 c' = m_BeginIndex0 c \<and> m_EndIndex0 c' = m_EndIndex0 c"
proof -
  let ?L = "m_RunLengthLine c" and ?j = "nat (m_RealIndex c)"
  from al have r0: "0 \<le> m_RealIndex c" and r1: "m_RealIndex c < int (length ?L)"
    and eq: "m_Index0 c + m_SegmentRemainder c = int (runStart ?L (Suc ?j))"
    by (auto simp: runAligned_def)
  from r0 r1 have j: "?j < length ?L" by linarith
  have suc: "runStart ?L (Suc ?j) = runStart ?L ?j + fst (?L ! ?j)"
    using j by (rule runStart_Suc)
  note step = decrement_run [OF r0 r1]
  show ?thesis
  proof (cases "m_SegmentRemainder c + 1 \<le> int (fst (?L ! ?j))")
    case True
    with step al lo show ?thesis by (simp add: runAligned_def)
  next
    case False
    with hi have full: "m_SegmentRemainder c = int (fst (?L ! ?j))" by linarith
    with eq suc have at: "m_Index0 c = int (runStart ?L ?j)" by linarith
    with i have "?j \<noteq> 0" by (auto simp: runStart_0 intro: ccontr)
    then obtain k where k: "?j = Suc k" by (cases ?j) simp_all
    then have prev: "nat (m_RealIndex c - 1) = k" and r: "1 \<le> m_RealIndex c" by linarith+
    from k j have kl: "k < length ?L" by simp
    have "1 \<le> fst (?L ! k)" using pos kl by (rule positiveRuns_nth)
    with step False at k prev r r1 show ?thesis
      by (simp add: runAligned_def)
  qed
qed

lemma scanBackward_decodes:
  assumes "positiveRuns (m_RunLengthLine c)" and "m_BeginIndex0 c = 0" and "runAligned c"
    and "0 \<le> m_SegmentRemainder c"
    and "m_SegmentRemainder c \<le> int (fst (m_RunLengthLine c ! nat (m_RealIndex c)))"
    and "0 \<le> m_Index0 c" and "nat (m_Index0 c) \<le> fuel"
  shows "scanBackward fuel c =
           Done (rev (take (nat (m_Index0 c)) (decode (m_RunLengthLine c))))"
  using assms
proof (induction fuel arbitrary: c)
  case 0
  then show ?case by simp
next
  case (Suc fuel)
  let ?D = "decode (m_RunLengthLine c)"
  show ?case
  proof (cases "m_Index0 c = 0")
    case True
    with Suc.prems(2) show ?thesis by simp
  next
    case False
    with Suc.prems(6) have i: "0 < m_Index0 c" by simp
    from decrement_aligned [OF Suc.prems(1,3,4,5) i]
    obtain c' where step: "decrement c = Inr c'" and al': "runAligned c'"
      and lo': "1 \<le> m_SegmentRemainder c'"
      and hi': "m_SegmentRemainder c' \<le> int (fst (m_RunLengthLine c' ! nat (m_RealIndex c')))"
      and i': "m_Index0 c' = m_Index0 c - 1" and L': "m_RunLengthLine c' = m_RunLengthLine c"
      and b': "m_BeginIndex0 c' = m_BeginIndex0 c" by blast
    from aligned_pixel [OF al' lo' hi'] L'
    have w: "m_Index0 c' < int (width (m_RunLengthLine c))"
      and px: "pixelAt (m_RunLengthLine c) (m_Index0 c') =
                 Some (snd (m_RunLengthLine c ! nat (m_RealIndex c')))" by simp_all
    from i i' have ni: "nat (m_Index0 c) = Suc (nat (m_Index0 c'))" and nn: "0 \<le> m_Index0 c'"
      by linarith+
    from w nn have inD: "nat (m_Index0 c') < length ?D" by (simp add: length_decode)
    from al' L' have "0 \<le> m_RealIndex c' \<and> m_RealIndex c' < int (length (m_RunLengthLine c))"
      by (simp add: runAligned_def)
    with px nn w have g: "Get c' = Inr (?D ! nat (m_Index0 c'))"
      by (simp add: Get_def runAt_def L' pixelAt_def length_decode)
    have ih: "scanBackward fuel c' = Done (rev (take (nat (m_Index0 c')) ?D))"
      using Suc.IH [of c'] Suc.prems(1,2,7) al' lo' hi' L' b' nn ni by simp
    have "rev (take (Suc (nat (m_Index0 c'))) ?D) =
            ?D ! nat (m_Index0 c') # rev (take (nat (m_Index0 c')) ?D)"
      using inD by (simp add: take_Suc_conv_app_nth)
    with False Suc.prems(2) step g ih ni show ?thesis by simp
  qed
qed

lemma traverseBackward_decodes:
  assumes ne: "m_RunLengthLine c \<noteq> []" and pos: "positiveRuns (m_RunLengthLine c)"
    and b: "m_BeginIndex0 c = 0" and e: "m_EndIndex0 c = int (width (m_RunLengthLine c))"
    and fuel: "width (m_RunLengthLine c) \<le> fuel"
  shows "traverseBackward fuel c = Done (rev (decode (m_RunLengthLine c)))"
proof -
  let ?L = "m_RunLengthLine c"
  let ?c = "c\<lparr>m_Index0 := m_EndIndex0 c, m_RealIndex := int (length ?L) - 1,
               m_SegmentRemainder := 0\<rparr>"
  have g: "GoToEndOfLine c = ?c" by (simp add: GoToEndOfLine_def Let_def)
  from ne have "0 < length ?L" by simp
  then have n: "Suc (nat (int (length ?L) - 1)) = length ?L" by linarith
  have al: "runAligned ?c" using ne e by (simp add: runAligned_def n runStart_length)
  have "scanBackward fuel ?c = Done (rev (take (nat (m_Index0 ?c)) (decode (m_RunLengthLine ?c))))"
    using pos b al e fuel by (intro scanBackward_decodes) simp_all
  with e g show ?thesis by (simp add: traverseBackward_def length_decode)
qed

lemma runStart_mono: "j \<le> k \<Longrightarrow> runStart L j \<le> runStart L k"
proof -
  assume "j \<le> k"
  then have "take j L = take j (take k L)" by (simp add: min_def)
  then have "runStart L j = runStart (take k L) j" by (simp add: runStart_def)
  also have "\<dots> \<le> width (take k L)" by (rule runStart_le_width)
  finally show ?thesis by (simp add: runStart_def)
qed

lemma owning_run_exists:
  "i < width L \<Longrightarrow> \<exists>j<length L. runStart L j \<le> i \<and> i < runStart L (Suc j)"
proof (induction L arbitrary: i)
  case Nil
  then show ?case by simp
next
  case (Cons r rs)
  show ?case
  proof (cases "i < fst r")
    case True
    then have "runStart (r # rs) 0 \<le> i \<and> i < runStart (r # rs) (Suc 0)"
      by (simp add: runStart_def)
    then show ?thesis by blast
  next
    case False
    with Cons.prems have "i - fst r < width rs" by simp
    from Cons.IH [OF this] obtain j where "j < length rs"
      and "runStart rs j \<le> i - fst r" and "i - fst r < runStart rs (Suc j)" by blast
    with False have "Suc j < length (r # rs) \<and> runStart (r # rs) (Suc j) \<le> i \<and>
        i < runStart (r # rs) (Suc (Suc j))"
      unfolding runStart_Cons by (simp, linarith)
    then show ?thesis by blast
  qed
qed

lemma owning_run_unique:
  assumes "runStart L j \<le> i" and "i < runStart L (Suc j)"
    and "runStart L k \<le> i" and "i < runStart L (Suc k)"
  shows "j = k"
proof (rule ccontr)
  assume "j \<noteq> k"
  then consider "Suc j \<le> k" | "Suc k \<le> j" by linarith
  then show False
  proof cases
    case 1
    from runStart_mono [OF 1, of L] assms show False by linarith
  next
    case 2
    from runStart_mono [OF 2, of L] assms show False by linarith
  qed
qed

section \<open>The seek and the line enumerator\<close>

lemma locate_owner:
  "col < width L \<Longrightarrow>
     \<exists>j n. locate L col = Some (j, n) \<and> j < length L \<and>
       col + n = runStart L (Suc j) \<and> 1 \<le> n \<and> n \<le> fst (L ! j)"
proof (induction L arbitrary: col)
  case Nil
  then show ?case by simp
next
  case (Cons r rs)
  show ?case
  proof (cases "col < fst r")
    case True
    then show ?thesis by (simp add: runStart_def)
  next
    case False
    with Cons.prems have "col - fst r < width rs" by simp
    from Cons.IH [OF this] obtain j n where "locate rs (col - fst r) = Some (j, n)"
      and "j < length rs" and "col - fst r + n = runStart rs (Suc j)"
      and "1 \<le> n" and "n \<le> fst (rs ! j)" by blast
    with False show ?thesis by (simp add: runStart_Cons)
  qed
qed

lemma IsAtEnd_advance: "IsAtEnd bi \<Longrightarrow> IsAtEnd (advance bi)"
  by (simp add: IsAtEnd_def advance_def)

lemma NextLine_exhausted:
  "IsAtEnd (advance (m_BI c)) \<Longrightarrow>
     NextLine c = Inr (c\<lparr>m_BI := advance (m_BI c), m_Index0 := m_BeginIndex0 c\<rparr>)"
  by (simp add: NextLine_def Let_def)

lemma NextLines_exhausted:
  "IsAtEnd (advance (m_BI c)) \<Longrightarrow>
     \<exists>c'. NextLines (Suc n) c = Inr c' \<and> IsAtEnd (m_BI c') \<and>
       m_Index0 c' = m_BeginIndex0 c \<and> m_BeginIndex0 c' = m_BeginIndex0 c"
proof (induction n arbitrary: c)
  case 0
  then show ?case by (simp add: NextLine_exhausted)
next
  case (Suc n)
  let ?c1 = "c\<lparr>m_BI := advance (m_BI c), m_Index0 := m_BeginIndex0 c\<rparr>"
  from Suc.prems have "IsAtEnd (advance (m_BI ?c1))" by (simp add: IsAtEnd_advance)
  from Suc.IH [OF this] obtain c' where "NextLines (Suc n) ?c1 = Inr c'"
    and "IsAtEnd (m_BI c')" and "m_Index0 c' = m_BeginIndex0 ?c1"
    and "m_BeginIndex0 c' = m_BeginIndex0 ?c1" by blast
  with Suc.prems show ?case
    using NextLine_exhausted [OF Suc.prems] by simp
qed

lemma NextLine_seeks:
  assumes ne: "\<not> IsAtEnd (advance (m_BI c))"
    and lo: "0 \<le> m_BeginIndex0 c"
    and hi: "m_BeginIndex0 c < int (width (regionLines (m_BI c) ! Suc (linePosition (m_BI c))))"
  shows "\<exists>c'. NextLine c = Inr c' \<and> m_BI c' = advance (m_BI c) \<and>
           m_RunLengthLine c' = regionLines (m_BI c) ! Suc (linePosition (m_BI c)) \<and>
           m_Index0 c' = m_BeginIndex0 c \<and>
           m_BeginIndex0 c' = m_BeginIndex0 c \<and> m_EndIndex0 c' = m_EndIndex0 c \<and>
           runAligned c' \<and> 1 \<le> m_SegmentRemainder c' \<and>
           m_SegmentRemainder c' \<le> int (fst (m_RunLengthLine c' ! nat (m_RealIndex c')))"
proof -
  let ?L = "regionLines (m_BI c) ! Suc (linePosition (m_BI c))"
  let ?c1 = "c\<lparr>m_BI := advance (m_BI c)\<rparr>"
  from lo hi have "nat (m_BeginIndex0 c) < width ?L" by linarith
  from locate_owner [OF this] obtain j n where loc: "locate ?L (nat (m_BeginIndex0 c)) = Some (j, n)"
    and j: "j < length ?L" and eq: "nat (m_BeginIndex0 c) + n = runStart ?L (Suc j)"
    and n1: "1 \<le> n" and n2: "n \<le> fst (?L ! j)" by blast
  from ne have cur: "current (advance (m_BI c)) = Inr ?L"
    by (simp add: current_def advance_def)
  have "NextLine c =
          Inr (?c1\<lparr>m_Index0 := m_BeginIndex0 c, m_RunLengthLine := ?L,
                    m_RealIndex := int j, m_SegmentRemainder := int n\<rparr>)"
    using ne lo loc cur by (simp add: NextLine_def SetIndexInternal_def Let_def)
  moreover from eq lo have "m_BeginIndex0 c + int n = int (runStart ?L (Suc j))" by linarith
  ultimately show ?thesis
    using j n1 n2 by (simp add: runAligned_def)
qed

section \<open>Properties of the line-boundary jumps\<close>

text \<open>
  C9: \<open>GoToEndOfLine\<close> sets \<open>m_Index0\<close> to \<open>m_EndIndex0\<close>, \<open>m_RealIndex\<close> to the index of
  the last run of the line (the number of runs minus one) and \<open>m_SegmentRemainder\<close> to
  0, leaves every other field as it was, and \<open>IsAtEndOfLine\<close> holds right afterwards.
\<close>

theorem GoToEndOfLine_sets:
  "GoToEndOfLine c =
     c\<lparr>m_Index0 := m_EndIndex0 c,
       m_RealIndex := int (length (m_RunLengthLine c)) - 1,
       m_SegmentRemainder := 0\<rparr>
   \<and> m_Index0 (GoToEndOfLine c) = m_EndIndex0 (GoToEndOfLine c)
   \<and> runAt (m_RunLengthLine c) (m_RealIndex (GoToEndOfLine c) + 1) = Inl OutOfRange
   \<and> IsAtEndOfLine (GoToEndOfLine c)"
  by (simp add: GoToEndOfLine_def IsAtEndOfLine_def runAt_def Let_def)

text \<open>
  C8: on a line that has a first run, \<open>GoToBeginOfLine\<close> sets \<open>m_Index0\<close> to
  \<open>m_BeginIndex0\<close>, \<open>m_RealIndex\<close> to 0 and \<open>m_SegmentRemainder\<close> to the length of the
  first run, and changes nothing else. When moreover \<open>m_BeginIndex0\<close> is the start of
  the full line (column 0), the first run has a positive length and the region holds
  at least one column, the resulting state is active (\<open>0 \<le> m_Index0 < m_EndIndex0\<close>) and
  forward-consistent, with an exact remainder.
\<close>

theorem GoToBeginOfLine_sets:
  "(m_RunLengthLine c \<noteq> [] \<longrightarrow>
      GoToBeginOfLine c =
        Inr (c\<lparr>m_Index0 := m_BeginIndex0 c, m_RealIndex := 0,
               m_SegmentRemainder := int (fst (m_RunLengthLine c ! 0))\<rparr>)) \<and>
   (m_RunLengthLine c \<noteq> [] \<and> 1 \<le> fst (m_RunLengthLine c ! 0) \<and>
    m_BeginIndex0 c = 0 \<and> 0 < m_EndIndex0 c \<longrightarrow>
      (\<exists>c0. GoToBeginOfLine c = Inr c0 \<and>
         0 \<le> m_Index0 c0 \<and> m_Index0 c0 < m_EndIndex0 c0 \<and> \<not> IsAtEndOfLine c0 \<and>
         forwardConsistent c0 \<and> runAligned c0))"
proof (intro conjI impI)
  assume "m_RunLengthLine c \<noteq> []"
  then show "GoToBeginOfLine c =
      Inr (c\<lparr>m_Index0 := m_BeginIndex0 c, m_RealIndex := 0,
             m_SegmentRemainder := int (fst (m_RunLengthLine c ! 0))\<rparr>)"
    by (rule GoToBeginOfLine_nonempty)
next
  assume a: "m_RunLengthLine c \<noteq> [] \<and> 1 \<le> fst (m_RunLengthLine c ! 0) \<and>
    m_BeginIndex0 c = 0 \<and> 0 < m_EndIndex0 c"
  then have "\<exists>c0. GoToBeginOfLine c = Inr c0 \<and> forwardConsistent c0 \<and> runAligned c0 \<and>
           m_Index0 c0 = 0 \<and> m_RunLengthLine c0 = m_RunLengthLine c \<and>
           m_BeginIndex0 c0 = m_BeginIndex0 c \<and> m_EndIndex0 c0 = m_EndIndex0 c"
    by (intro GoToBeginOfLine_consistent) simp_all
  then obtain c0 where g: "GoToBeginOfLine c = Inr c0" and fc: "forwardConsistent c0"
    and al: "runAligned c0" by blast
  from consistentD(5,6) [OF fc] fc g al
  show "\<exists>c0. GoToBeginOfLine c = Inr c0 \<and>
         0 \<le> m_Index0 c0 \<and> m_Index0 c0 < m_EndIndex0 c0 \<and> \<not> IsAtEndOfLine c0 \<and>
         forwardConsistent c0 \<and> runAligned c0"
    by (simp add: forwardConsistent_def)
qed

theorem GoToBeginOfLine_sets_witness:
  "GoToBeginOfLine (cursorState [(3, CHR ''A''), (2, CHR ''B'')] 0 5 4 1 1) =
     Inr (cursorState [(3, CHR ''A''), (2, CHR ''B'')] 0 5 0 0 3) \<and>
   forwardConsistent (cursorState [(3, CHR ''A''), (2, CHR ''B'')] 0 5 0 0 3) \<and>
   runAligned (cursorState [(3, CHR ''A''), (2, CHR ''B'')] 0 5 0 0 3)"
proof -
  let ?c = "cursorState [(3, CHR ''A''), (2, CHR ''B'')] 0 5 4 1 1"
  have h: "m_RunLengthLine ?c \<noteq> [] \<and> 1 \<le> fst (m_RunLengthLine ?c ! 0) \<and>
      m_BeginIndex0 ?c = 0 \<and> 0 < m_EndIndex0 ?c"
    by (simp add: cursorState_def)
  have g: "GoToBeginOfLine ?c = Inr (cursorState [(3, CHR ''A''), (2, CHR ''B'')] 0 5 0 0 3)"
    using GoToBeginOfLine_sets [of ?c] by (simp add: cursorState_def)
  from GoToBeginOfLine_sets [of ?c, THEN conjunct2, rule_format, OF h]
  obtain c0 where "GoToBeginOfLine ?c = Inr c0" and "forwardConsistent c0" and "runAligned c0"
    by blast
  with g show ?thesis by simp
qed

section \<open>Properties of single steps\<close>

text \<open>
  C1: for a cursor that is not at the end of the line, and whose next run exists when
  the step has to load it, one forward step returns a state in which \<open>m_Index0\<close> is one
  more and the remainder one less; when the new remainder is positive nothing else
  changes; otherwise, when the new index is \<open>m_EndIndex0\<close>, the remainder keeps its
  decremented value (0 whenever it was at least 1 before) and \<open>m_RealIndex\<close> is
  unchanged; otherwise \<open>m_RealIndex\<close> is one more and the remainder is the length of
  that run.
\<close>

theorem increment_step:
  assumes "\<not> IsAtEndOfLine c"
    and "m_SegmentRemainder c \<le> 1 \<and> m_Index0 c + 1 \<noteq> m_EndIndex0 c \<longrightarrow>
           0 \<le> m_RealIndex c + 1 \<and> m_RealIndex c + 1 < int (length (m_RunLengthLine c))"
  shows "\<exists>c'. increment debug c = Inr c' \<and>
           c' =
             (if 0 < m_SegmentRemainder c - 1 then
                c\<lparr>m_Index0 := m_Index0 c + 1, m_SegmentRemainder := m_SegmentRemainder c - 1\<rparr>
              else if m_Index0 c + 1 = m_EndIndex0 c then
                c\<lparr>m_Index0 := m_Index0 c + 1, m_SegmentRemainder := m_SegmentRemainder c - 1\<rparr>
              else
                c\<lparr>m_Index0 := m_Index0 c + 1,
                  m_RealIndex := m_RealIndex c + 1,
                  m_SegmentRemainder :=
                    int (fst (m_RunLengthLine c ! nat (m_RealIndex c + 1)))\<rparr>) \<and>
           m_Index0 c' = m_Index0 c + 1 \<and>
           (\<not> 0 < m_SegmentRemainder c - 1 \<and> m_Index0 c + 1 = m_EndIndex0 c \<and>
              1 \<le> m_SegmentRemainder c \<longrightarrow>
              m_SegmentRemainder c' = 0 \<and> m_RealIndex c' = m_RealIndex c)"
  using assms
  by (auto simp: increment_def IsAtEndOfLine_def runAt_def Let_def)

theorem increment_step_witness:
  "\<exists>c'. increment True (cursorState [(3, CHR ''A''), (2, CHR ''B'')] 0 5 2 0 1) = Inr c' \<and>
     c' = cursorState [(3, CHR ''A''), (2, CHR ''B'')] 0 5 3 1 2"
  using increment_step [of "cursorState [(3, CHR ''A''), (2, CHR ''B'')] 0 5 2 0 1" True]
  by (simp add: cursorState_def IsAtEndOfLine_def)

text \<open>
  C2: for a cursor whose current run exists, one backward step returns a state in which
  \<open>m_Index0\<close> is one less; when the remainder plus one is at most the length of the
  current run, the remainder is one more and nothing else changes; otherwise
  \<open>m_RealIndex\<close> is one less and the remainder is exactly 1.
\<close>

theorem decrement_step:
  assumes "0 \<le> m_RealIndex c" and "m_RealIndex c < int (length (m_RunLengthLine c))"
  shows "decrement c =
           Inr (if m_SegmentRemainder c + 1 \<le> int (fst (m_RunLengthLine c ! nat (m_RealIndex c)))
                then c\<lparr>m_Index0 := m_Index0 c - 1,
                       m_SegmentRemainder := m_SegmentRemainder c + 1\<rparr>
                else c\<lparr>m_Index0 := m_Index0 c - 1,
                       m_RealIndex := m_RealIndex c - 1,
                       m_SegmentRemainder := 1\<rparr>)"
  using assms
  by (simp add: decrement_def runAt_def Let_def)

theorem decrement_step_witness:
  "decrement (cursorState [(3, CHR ''A''), (2, CHR ''B'')] 0 5 3 1 2) =
     Inr (cursorState [(3, CHR ''A''), (2, CHR ''B'')] 0 5 2 0 1)"
  using decrement_step [of "cursorState [(3, CHR ''A''), (2, CHR ''B'')] 0 5 3 1 2"]
  by (simp add: cursorState_def)

text \<open>
  C10: in a forward-consistent state at \<open>m_Index0 = m_EndIndex0 - 1\<close> with a remainder of
  at least 2, one forward step reaches the end of the line with the remainder one less,
  still positive, and \<open>m_RealIndex\<close> unchanged; that state is not a state
  \<open>GoToEndOfLine\<close> produces, whose remainder is 0. When the remainder is exact, the end
  column lies strictly inside the current run.
\<close>

theorem increment_into_clipped_end:
  assumes "forwardConsistent c" and "m_Index0 c = m_EndIndex0 c - 1"
    and "2 \<le> m_SegmentRemainder c"
  shows "\<exists>c'. increment debug c = Inr c' \<and> IsAtEndOfLine c' \<and>
           m_SegmentRemainder c' = m_SegmentRemainder c - 1 \<and>
           0 < m_SegmentRemainder c' \<and>
           m_RealIndex c' = m_RealIndex c \<and>
           (\<forall>x. m_SegmentRemainder (GoToEndOfLine x) = 0 \<and> c' \<noteq> GoToEndOfLine x) \<and>
           (runAligned c \<longrightarrow>
              int (runStart (m_RunLengthLine c) (nat (m_RealIndex c))) < m_EndIndex0 c \<and>
              m_EndIndex0 c < int (runStart (m_RunLengthLine c) (Suc (nat (m_RealIndex c)))))"
proof -
  let ?L = "m_RunLengthLine c" and ?j = "nat (m_RealIndex c)"
  let ?c' = "c\<lparr>m_Index0 := m_Index0 c + 1, m_SegmentRemainder := m_SegmentRemainder c - 1\<rparr>"
  note d = consistentD [OF assms(1)]
  from assms(1) have notEnd: "\<not> IsAtEndOfLine c" by (simp add: forwardConsistent_def)
  from assms(3) have "1 < m_SegmentRemainder c" by simp
  with notEnd have step: "increment debug c = Inr ?c'" by (rule increment_inside_run)
  have seg0: "m_SegmentRemainder (GoToEndOfLine x) = 0" for x :: "'a cursor"
    by (simp add: GoToEndOfLine_def Let_def)
  have diff: "?c' \<noteq> GoToEndOfLine x" for x
  proof
    assume "?c' = GoToEndOfLine x"
    then have "m_SegmentRemainder ?c' = m_SegmentRemainder (GoToEndOfLine x)" by simp
    with seg0 assms(3) show False by simp
  qed
  have inside: "int (runStart ?L ?j) < m_EndIndex0 c \<and> m_EndIndex0 c < int (runStart ?L (Suc ?j))"
    if al: "runAligned c"
  proof -
    from al have eq: "m_Index0 c + m_SegmentRemainder c = int (runStart ?L (Suc ?j))"
      by (simp add: runAligned_def)
    from d(1,2) have "?j < length ?L" by linarith
    then have "runStart ?L (Suc ?j) = runStart ?L ?j + fst (?L ! ?j)" by (rule runStart_Suc)
    with eq d(4) assms(2,3) show ?thesis by linarith
  qed
  from step assms(2,3) seg0 diff inside show ?thesis
    by (simp add: IsAtEndOfLine_def)
qed

theorem increment_into_clipped_end_witness:
  "increment True (cursorState [(3, CHR ''A''), (2, CHR ''B'')] 0 2 1 0 2) =
     Inr (cursorState [(3, CHR ''A''), (2, CHR ''B'')] 0 2 2 0 1) \<and>
   IsAtEndOfLine (cursorState [(3, CHR ''A''), (2, CHR ''B'')] 0 2 2 0 1) \<and>
   GoToEndOfLine (cursorState [(3, CHR ''A''), (2, CHR ''B'')] 0 2 2 0 1) =
     cursorState [(3, CHR ''A''), (2, CHR ''B'')] 0 2 2 1 0"
proof -
  let ?c = "cursorState [(3, CHR ''A''), (2, CHR ''B'')] 0 2 1 0 2"
  have fc: "forwardConsistent ?c"
    by (simp add: forwardConsistent_def cursorState_def IsAtEndOfLine_def runAt_def
        pixelAt_def eval_nat_numeral)
  have i: "m_Index0 ?c = m_EndIndex0 ?c - 1" and s: "2 \<le> m_SegmentRemainder ?c"
    by (simp_all add: cursorState_def)
  from increment_into_clipped_end [OF fc i s, of True]
  obtain c' where st: "increment True ?c = Inr c'" and e: "IsAtEndOfLine c'" by blast
  have "increment True ?c = Inr (cursorState [(3, CHR ''A''), (2, CHR ''B'')] 0 2 2 0 1)"
    by (simp add: increment_def cursorState_def IsAtEndOfLine_def Let_def)
  with st e show ?thesis by (simp add: GoToEndOfLine_def cursorState_def Let_def)
qed

section \<open>Full traversal of a line\<close>

text \<open>
  C4: for a line of at least one run, all runs of length at least 1, and a region that
  covers the full line, the forward traversal from \<open>GoToBeginOfLine\<close> to
  \<open>IsAtEndOfLine\<close> finishes (with any fuel of at least the width of the line), without
  fault, having visited exactly as many pixels as the run lengths sum to; the value seen
  at the \<open>i\<close>-th visited pixel is the value of the one run whose cumulative range
  contains \<open>i\<close>.
\<close>

theorem forward_traversal_decodes:
  assumes "m_RunLengthLine c \<noteq> []" and "positiveRuns (m_RunLengthLine c)"
    and "m_BeginIndex0 c = 0" and "m_EndIndex0 c = int (width (m_RunLengthLine c))"
    and "width (m_RunLengthLine c) \<le> fuel"
  shows "\<exists>vs. traverseForward debug fuel c = Done vs \<and>
           vs = decode (m_RunLengthLine c) \<and>
           length vs = width (m_RunLengthLine c) \<and>
           (\<forall>i. i < length vs \<longrightarrow>
              (\<exists>j. j < length (m_RunLengthLine c) \<and>
                 runStart (m_RunLengthLine c) j \<le> i \<and>
                 i < runStart (m_RunLengthLine c) j + fst (m_RunLengthLine c ! j) \<and>
                 vs ! i = snd (m_RunLengthLine c ! j) \<and>
                 (\<forall>k. k < length (m_RunLengthLine c) \<and>
                    runStart (m_RunLengthLine c) k \<le> i \<and>
                    i < runStart (m_RunLengthLine c) k + fst (m_RunLengthLine c ! k) \<longrightarrow>
                    k = j)))"
proof -
  let ?L = "m_RunLengthLine c"
  have t: "traverseForward debug fuel c = Done (decode ?L)"
    using assms by (rule traverseForward_decodes)
  have owner: "\<exists>j. j < length ?L \<and> runStart ?L j \<le> i \<and>
                 i < runStart ?L j + fst (?L ! j) \<and> decode ?L ! i = snd (?L ! j) \<and>
                 (\<forall>k. k < length ?L \<and> runStart ?L k \<le> i \<and>
                    i < runStart ?L k + fst (?L ! k) \<longrightarrow> k = j)"
    if "i < length (decode ?L)" for i
  proof -
    from that have "i < width ?L" by (simp only: length_decode)
    from owning_run_exists [OF this] obtain j where j: "j < length ?L"
      and lo: "runStart ?L j \<le> i" and hi: "i < runStart ?L (Suc j)" by blast
    have hi': "i < runStart ?L j + fst (?L ! j)"
      using hi runStart_Suc [OF j] by simp
    have v: "decode ?L ! i = snd (?L ! j)" using j lo hi by (rule decode_nth_run)
    have u: "\<forall>k. k < length ?L \<and> runStart ?L k \<le> i \<and>
               i < runStart ?L k + fst (?L ! k) \<longrightarrow> k = j"
    proof (intro allI impI)
      fix k
      assume a: "k < length ?L \<and> runStart ?L k \<le> i \<and> i < runStart ?L k + fst (?L ! k)"
      then have "i < runStart ?L (Suc k)" by (simp add: runStart_Suc)
      with a show "k = j" using lo hi by (intro owning_run_unique [of ?L k i j]) simp_all
    qed
    from j lo hi' v u show ?thesis by (intro exI [of _ j] conjI)
  qed
  show ?thesis
  proof (rule exI [of _ "decode ?L"], intro conjI)
    show "traverseForward debug fuel c = Done (decode ?L)" by (rule t)
    show "decode ?L = decode ?L" ..
    show "length (decode ?L) = width ?L" by (rule length_decode)
    show "\<forall>i. i < length (decode ?L) \<longrightarrow>
            (\<exists>j. j < length ?L \<and> runStart ?L j \<le> i \<and>
               i < runStart ?L j + fst (?L ! j) \<and> decode ?L ! i = snd (?L ! j) \<and>
               (\<forall>k. k < length ?L \<and> runStart ?L k \<le> i \<and>
                  i < runStart ?L k + fst (?L ! k) \<longrightarrow> k = j))"
      by (intro allI impI) (rule owner)
  qed
qed

lemma decode_example: "decode [(3, CHR ''A''), (2, CHR ''B'')] = ''AAABB''"
  by (simp add: numeral_3_eq_3 numeral_2_eq_2)

theorem forward_traversal_decodes_witness:
  "traverseForward True 5 (cursorState [(3, CHR ''A''), (2, CHR ''B'')] 0 5 0 0 0) = Done ''AAABB''"
proof -
  let ?c = "cursorState [(3, CHR ''A''), (2, CHR ''B'')] 0 5 0 0 0"
  have "m_RunLengthLine ?c \<noteq> []" and "positiveRuns (m_RunLengthLine ?c)"
    and "m_BeginIndex0 ?c = 0" and "m_EndIndex0 ?c = int (width (m_RunLengthLine ?c))"
    and "width (m_RunLengthLine ?c) \<le> 5"
    by (simp_all add: cursorState_def positiveRuns_def)
  from forward_traversal_decodes [OF this, of True]
  have "traverseForward True 5 ?c = Done (decode (m_RunLengthLine ?c))" by blast
  also have "m_RunLengthLine ?c = [(3, CHR ''A''), (2, CHR ''B'')]"
    by (simp add: cursorState_def)
  finally show ?thesis by (simp only: decode_example)
qed

section \<open>Forward and backward steps together\<close>

text \<open>
  C5: in a forward-consistent state (any column of \<open>[m_BeginIndex0, m_EndIndex0)\<close> where
  the state is forward-consistent), where the next run exists when the forward step has
  to load it, one forward step followed by one backward step returns the state the
  cursor started in: \<open>m_Index0\<close>, \<open>m_RealIndex\<close> and \<open>m_SegmentRemainder\<close> are restored, also
  when the forward step crosses a run boundary or reaches the end of the line.
\<close>

theorem forward_then_backward_restores:
  assumes "forwardConsistent c"
    and "m_SegmentRemainder c = 1 \<and> m_Index0 c + 1 \<noteq> m_EndIndex0 c \<longrightarrow>
           m_RealIndex c + 1 < int (length (m_RunLengthLine c))"
  shows "\<exists>c'. increment debug c = Inr c' \<and> decrement c' = Inr c"
proof -
  note d = consistentD [OF assms(1)]
  from assms(1) have notEnd: "\<not> IsAtEndOfLine c" by (simp add: forwardConsistent_def)
  show ?thesis
  proof (cases "1 < m_SegmentRemainder c")
    case True
    with d increment_inside_run [OF notEnd True, of debug] show ?thesis
      by (simp add: decrement_def runAt_def Let_def)
  next
    case False
    with d(3) have one: "m_SegmentRemainder c = 1" by simp
    show ?thesis
    proof (cases "m_Index0 c + 1 = m_EndIndex0 c")
      case True
      with d one increment_to_end [OF notEnd True, of debug] show ?thesis
        by (simp add: decrement_def runAt_def Let_def)
    next
      case False
      with assms(2) one have nxt: "m_RealIndex c + 1 < int (length (m_RunLengthLine c))"
        by simp
      have "increment debug c =
              Inr (c\<lparr>m_Index0 := m_Index0 c + 1, m_RealIndex := m_RealIndex c + 1,
                     m_SegmentRemainder :=
                       int (fst (m_RunLengthLine c ! nat (m_RealIndex c + 1)))\<rparr>)"
        using notEnd one False d(1) nxt by (intro increment_next_run) simp_all
      with d one nxt show ?thesis
        by (simp add: decrement_def runAt_def Let_def)
    qed
  qed
qed

theorem forward_then_backward_restores_witness:
  "increment True (cursorState [(3, CHR ''A''), (2, CHR ''B'')] 0 5 2 0 1) =
     Inr (cursorState [(3, CHR ''A''), (2, CHR ''B'')] 0 5 3 1 2) \<and>
   decrement (cursorState [(3, CHR ''A''), (2, CHR ''B'')] 0 5 3 1 2) =
     Inr (cursorState [(3, CHR ''A''), (2, CHR ''B'')] 0 5 2 0 1)"
proof -
  let ?c = "cursorState [(3, CHR ''A''), (2, CHR ''B'')] 0 5 2 0 1"
  have fc: "forwardConsistent ?c"
    by (simp add: forwardConsistent_def cursorState_def IsAtEndOfLine_def runAt_def
        pixelAt_def eval_nat_numeral)
  have n: "m_SegmentRemainder ?c = 1 \<and> m_Index0 ?c + 1 \<noteq> m_EndIndex0 ?c \<longrightarrow>
           m_RealIndex ?c + 1 < int (length (m_RunLengthLine ?c))"
    by (simp add: cursorState_def)
  from forward_then_backward_restores [OF fc n, of True]
  obtain c' where i: "increment True ?c = Inr c'" and d: "decrement c' = Inr ?c" by blast
  have "increment True ?c = Inr (cursorState [(3, CHR ''A''), (2, CHR ''B'')] 0 5 3 1 2)"
    by (simp add: increment_def cursorState_def IsAtEndOfLine_def runAt_def Let_def)
  with i d show ?thesis by simp
qed

section \<open>The forward-consistency invariant\<close>

text \<open>
  C3, as stated, fails: the invariant of section 3 of the spec is not kept by a forward
  step. On the line \<open>[(3, A), (2, B)]\<close> with the region \<open>[2, 5)\<close>, \<open>GoToBeginOfLine\<close> gives
  column 2, run 0, remainder 3, which satisfies the invariant (the pixel at column 2
  is \<open>A\<close>); the forward step leads to column 3, not the end of the line, still on run 0
  with remainder 2, where the pixel is \<open>B\<close> and the current run's value is \<open>A\<close>.
\<close>

theorem forwardConsistent_not_inductive:
  "GoToBeginOfLine (cursorState [(3, CHR ''A''), (2, CHR ''B'')] 2 5 0 0 0) =
     Inr (cursorState [(3, CHR ''A''), (2, CHR ''B'')] 2 5 2 0 3) \<and>
   forwardConsistent (cursorState [(3, CHR ''A''), (2, CHR ''B'')] 2 5 2 0 3) \<and>
   increment True (cursorState [(3, CHR ''A''), (2, CHR ''B'')] 2 5 2 0 3) =
     Inr (cursorState [(3, CHR ''A''), (2, CHR ''B'')] 2 5 3 0 2) \<and>
   increment False (cursorState [(3, CHR ''A''), (2, CHR ''B'')] 2 5 2 0 3) =
     Inr (cursorState [(3, CHR ''A''), (2, CHR ''B'')] 2 5 3 0 2) \<and>
   \<not> IsAtEndOfLine (cursorState [(3, CHR ''A''), (2, CHR ''B'')] 2 5 3 0 2) \<and>
   \<not> forwardConsistent (cursorState [(3, CHR ''A''), (2, CHR ''B'')] 2 5 3 0 2)"
  by (simp add: GoToBeginOfLine_def increment_def forwardConsistent_def cursorState_def
      IsAtEndOfLine_def runAt_def pixelAt_def Let_def eval_nat_numeral)


text \<open>
  C3, amended: on a line whose runs all have length at least 1 and with \<open>m_EndIndex0\<close>
  at most the width of the line, a state that is forward-consistent and whose remainder
  is exact (\<open>m_Index0 + m_SegmentRemainder\<close> is the column where the current run ends) is
  taken by a forward step that does not reach the end of the line to a state that is
  again forward-consistent with an exact remainder. \<open>GoToBeginOfLine\<close>, on a non-empty
  line of such runs, with \<open>m_BeginIndex0\<close> the start of the full line and a region of at
  least one column, establishes both.
\<close>

theorem increment_keeps_exact_consistency:
  "(positiveRuns (m_RunLengthLine c) \<and>
    m_EndIndex0 c \<le> int (width (m_RunLengthLine c)) \<and>
    forwardConsistent c \<and> runAligned c \<and> m_Index0 c + 1 \<noteq> m_EndIndex0 c \<longrightarrow>
      (\<exists>c'. increment debug c = Inr c' \<and> \<not> IsAtEndOfLine c' \<and>
         forwardConsistent c' \<and> runAligned c')) \<and>
   (m_RunLengthLine b \<noteq> [] \<and> positiveRuns (m_RunLengthLine b) \<and>
    m_BeginIndex0 b = 0 \<and> 0 < m_EndIndex0 b \<longrightarrow>
      (\<exists>c0. GoToBeginOfLine b = Inr c0 \<and> forwardConsistent c0 \<and> runAligned c0))"
proof (intro conjI impI)
  assume a: "positiveRuns (m_RunLengthLine c) \<and>
    m_EndIndex0 c \<le> int (width (m_RunLengthLine c)) \<and>
    forwardConsistent c \<and> runAligned c \<and> m_Index0 c + 1 \<noteq> m_EndIndex0 c"
  then have "\<exists>c'. increment debug c = Inr c' \<and> forwardConsistent c' \<and> runAligned c' \<and>
           m_Index0 c' = m_Index0 c + 1 \<and> m_RunLengthLine c' = m_RunLengthLine c \<and>
           m_BeginIndex0 c' = m_BeginIndex0 c \<and> m_EndIndex0 c' = m_EndIndex0 c"
    by (intro increment_preserves) simp_all
  then obtain c' where "increment debug c = Inr c'" and fc: "forwardConsistent c'"
    and "runAligned c'" by blast
  moreover from fc have "\<not> IsAtEndOfLine c'" by (simp add: forwardConsistent_def)
  ultimately show "\<exists>c'. increment debug c = Inr c' \<and> \<not> IsAtEndOfLine c' \<and>
         forwardConsistent c' \<and> runAligned c'" by blast
next
  assume a: "m_RunLengthLine b \<noteq> [] \<and> positiveRuns (m_RunLengthLine b) \<and>
    m_BeginIndex0 b = 0 \<and> 0 < m_EndIndex0 b"
  then have "0 < length (m_RunLengthLine b)" by simp
  with a have "1 \<le> fst (m_RunLengthLine b ! 0)" by (intro positiveRuns_nth) simp_all
  with a have "\<exists>c0. GoToBeginOfLine b = Inr c0 \<and> forwardConsistent c0 \<and> runAligned c0 \<and>
           m_Index0 c0 = 0 \<and> m_RunLengthLine c0 = m_RunLengthLine b \<and>
           m_BeginIndex0 c0 = m_BeginIndex0 b \<and> m_EndIndex0 c0 = m_EndIndex0 b"
    by (intro GoToBeginOfLine_consistent) simp_all
  then show "\<exists>c0. GoToBeginOfLine b = Inr c0 \<and> forwardConsistent c0 \<and> runAligned c0"
    by blast
qed

theorem increment_keeps_exact_consistency_witness:
  "forwardConsistent (cursorState [(3, CHR ''A''), (2, CHR ''B'')] 0 5 2 0 1) \<and>
   runAligned (cursorState [(3, CHR ''A''), (2, CHR ''B'')] 0 5 2 0 1) \<and>
   increment True (cursorState [(3, CHR ''A''), (2, CHR ''B'')] 0 5 2 0 1) =
     Inr (cursorState [(3, CHR ''A''), (2, CHR ''B'')] 0 5 3 1 2) \<and>
   forwardConsistent (cursorState [(3, CHR ''A''), (2, CHR ''B'')] 0 5 3 1 2) \<and>
   runAligned (cursorState [(3, CHR ''A''), (2, CHR ''B'')] 0 5 3 1 2) \<and>
   GoToBeginOfLine (cursorState [(3, CHR ''A''), (2, CHR ''B'')] 0 5 3 1 2) =
     Inr (cursorState [(3, CHR ''A''), (2, CHR ''B'')] 0 5 0 0 3) \<and>
   forwardConsistent (cursorState [(3, CHR ''A''), (2, CHR ''B'')] 0 5 0 0 3) \<and>
   runAligned (cursorState [(3, CHR ''A''), (2, CHR ''B'')] 0 5 0 0 3)"
proof -
  let ?L = "[(3, CHR ''A''), (2, CHR ''B'')]"
  let ?c = "cursorState ?L 0 5 2 0 1" and ?b = "cursorState ?L 0 5 3 1 2"
  have fc: "forwardConsistent ?c"
    by (simp add: forwardConsistent_def cursorState_def IsAtEndOfLine_def runAt_def
        pixelAt_def eval_nat_numeral)
  have al: "runAligned ?c"
    by (simp add: runAligned_def cursorState_def runStart_def)
  have h1: "positiveRuns (m_RunLengthLine ?c) \<and>
    m_EndIndex0 ?c \<le> int (width (m_RunLengthLine ?c)) \<and>
    forwardConsistent ?c \<and> runAligned ?c \<and> m_Index0 ?c + 1 \<noteq> m_EndIndex0 ?c"
    using fc al by (simp add: cursorState_def positiveRuns_def)
  have h2: "m_RunLengthLine ?b \<noteq> [] \<and> positiveRuns (m_RunLengthLine ?b) \<and>
    m_BeginIndex0 ?b = 0 \<and> 0 < m_EndIndex0 ?b"
    by (simp add: cursorState_def positiveRuns_def)
  note inst = increment_keeps_exact_consistency [of ?c True ?b]
  from inst [THEN conjunct1, rule_format, OF h1]
  obtain c' where s: "increment True ?c = Inr c'" and fc': "forwardConsistent c'"
    and al': "runAligned c'" by blast
  from inst [THEN conjunct2, rule_format, OF h2]
  obtain c0 where g: "GoToBeginOfLine ?b = Inr c0" and fc0: "forwardConsistent c0"
    and al0: "runAligned c0" by blast
  have s': "increment True ?c = Inr ?b"
    by (simp add: increment_def cursorState_def IsAtEndOfLine_def runAt_def Let_def)
  have g': "GoToBeginOfLine ?b = Inr (cursorState ?L 0 5 0 0 3)"
    by (simp add: GoToBeginOfLine_def cursorState_def runAt_def Let_def)
  from s s' fc' al' g g' fc0 al0 fc al show ?thesis by simp
qed

section \<open>Backward traversal\<close>

text \<open>
  C6, as stated, fails for a region that ends inside the line. On the line
  \<open>[(2, A), (2, B)]\<close> with the region \<open>[0, 3)\<close> the forward traversal sees \<open>A A B\<close>, and
  the backward traversal from \<open>GoToEndOfLine\<close>, which starts on the last run as if the
  region ended with the line, sees \<open>B B A\<close>.
\<close>

theorem traverseBackward_clipped_end:
  "traverseForward False 3 (cursorState [(2, CHR ''A''), (2, CHR ''B'')] 0 3 0 0 0) =
     Done ''AAB'' \<and>
   traverseBackward 3 (cursorState [(2, CHR ''A''), (2, CHR ''B'')] 0 3 0 0 0) =
     Done ''BBA'' \<and>
   ''BBA'' \<noteq> rev ''AAB''"
  by (simp add: traverseForward_def traverseBackward_def GoToBeginOfLine_def
      GoToEndOfLine_def increment_def decrement_def Get_def cursorState_def
      IsAtEndOfLine_def runAt_def Let_def eval_nat_numeral)


text \<open>
  C6, amended: for a non-empty line whose runs all have length at least 1 and a region
  that covers the full line, the backward traversal from \<open>GoToEndOfLine\<close> down to
  \<open>m_BeginIndex0\<close> finishes without fault and sees the values of the forward traversal
  from \<open>GoToBeginOfLine\<close> in reverse order.
\<close>

theorem traverseBackward_reverses_forward:
  assumes "m_RunLengthLine c \<noteq> []" and "positiveRuns (m_RunLengthLine c)"
    and "m_BeginIndex0 c = 0" and "m_EndIndex0 c = int (width (m_RunLengthLine c))"
    and "width (m_RunLengthLine c) \<le> fuel"
  shows "\<exists>vs. traverseForward debug fuel c = Done vs \<and>
           traverseBackward fuel c = Done (rev vs) \<and>
           vs = decode (m_RunLengthLine c)"
  using traverseForward_decodes [OF assms, of debug] traverseBackward_decodes [OF assms]
  by simp

theorem traverseBackward_reverses_forward_witness:
  "traverseForward True 4 (cursorState [(2, CHR ''A''), (2, CHR ''B'')] 0 4 0 0 0) =
     Done ''AABB'' \<and>
   traverseBackward 4 (cursorState [(2, CHR ''A''), (2, CHR ''B'')] 0 4 0 0 0) =
     Done ''BBAA''"
proof -
  let ?c = "cursorState [(2, CHR ''A''), (2, CHR ''B'')] 0 4 0 0 0"
  have "m_RunLengthLine ?c \<noteq> []" and "positiveRuns (m_RunLengthLine ?c)"
    and "m_BeginIndex0 ?c = 0" and "m_EndIndex0 ?c = int (width (m_RunLengthLine ?c))"
    and "width (m_RunLengthLine ?c) \<le> 4"
    by (simp_all add: cursorState_def positiveRuns_def)
  from traverseBackward_reverses_forward [OF this, of True]
  have "traverseForward True 4 ?c = Done (decode (m_RunLengthLine ?c))"
    and "traverseBackward 4 ?c = Done (rev (decode (m_RunLengthLine ?c)))" by simp_all
  moreover have "decode (m_RunLengthLine ?c) = ''AABB''"
    by (simp add: cursorState_def eval_nat_numeral)
  ultimately show ?thesis by simp
qed

section \<open>Moving to the next line\<close>

text \<open>
  C7: \<open>NextLine\<close> advances the line enumerator. When the enumerator is not exhausted
  afterwards, the result is that of the seek at the stored \<open>m_BeginIndex0\<close> on the new
  line; for a begin column inside that line the seek returns a state on the new line at
  column \<open>m_BeginIndex0\<close> with the owning run and an exact remainder, and with the column
  bounds of the region, which are the same for every line. When the enumerator is
  exhausted afterwards, \<open>NextLine\<close> returns the state with \<open>m_Index0\<close> set to
  \<open>m_BeginIndex0\<close> and nothing else changed, without fault, and so does every further
  call.
\<close>

theorem NextLine_behaviour:
  "(\<forall>c'. NextLine c = Inr c' \<longrightarrow> m_BI c' = advance (m_BI c)) \<and>
   (\<not> IsAtEnd (advance (m_BI c)) \<longrightarrow>
      NextLine c = SetIndexInternal (c\<lparr>m_BI := advance (m_BI c)\<rparr>) (m_BeginIndex0 c)) \<and>
   (\<not> IsAtEnd (advance (m_BI c)) \<and> 0 \<le> m_BeginIndex0 c \<and>
    m_BeginIndex0 c < int (width (regionLines (m_BI c) ! Suc (linePosition (m_BI c)))) \<longrightarrow>
      (\<exists>c'. NextLine c = Inr c' \<and>
         m_RunLengthLine c' = regionLines (m_BI c) ! Suc (linePosition (m_BI c)) \<and>
         m_Index0 c' = m_BeginIndex0 c \<and>
         m_BeginIndex0 c' = m_BeginIndex0 c \<and> m_EndIndex0 c' = m_EndIndex0 c \<and>
         runAligned c' \<and> 1 \<le> m_SegmentRemainder c' \<and>
         m_SegmentRemainder c' \<le> int (fst (m_RunLengthLine c' ! nat (m_RealIndex c'))))) \<and>
   (IsAtEnd (advance (m_BI c)) \<longrightarrow>
      NextLine c = Inr (c\<lparr>m_BI := advance (m_BI c), m_Index0 := m_BeginIndex0 c\<rparr>) \<and>
      (\<forall>n. \<exists>c'. NextLines (Suc n) c = Inr c' \<and> IsAtEnd (m_BI c') \<and>
         m_Index0 c' = m_BeginIndex0 c))"
proof (intro conjI)
  show "\<forall>c'. NextLine c = Inr c' \<longrightarrow> m_BI c' = advance (m_BI c)"
    by (auto simp: NextLine_def SetIndexInternal_def Let_def
        split: if_splits sum.splits option.splits)
  show "\<not> IsAtEnd (advance (m_BI c)) \<longrightarrow>
      NextLine c = SetIndexInternal (c\<lparr>m_BI := advance (m_BI c)\<rparr>) (m_BeginIndex0 c)"
    by (simp add: NextLine_def Let_def)
  show "\<not> IsAtEnd (advance (m_BI c)) \<and> 0 \<le> m_BeginIndex0 c \<and>
    m_BeginIndex0 c < int (width (regionLines (m_BI c) ! Suc (linePosition (m_BI c)))) \<longrightarrow>
      (\<exists>c'. NextLine c = Inr c' \<and>
         m_RunLengthLine c' = regionLines (m_BI c) ! Suc (linePosition (m_BI c)) \<and>
         m_Index0 c' = m_BeginIndex0 c \<and>
         m_BeginIndex0 c' = m_BeginIndex0 c \<and> m_EndIndex0 c' = m_EndIndex0 c \<and>
         runAligned c' \<and> 1 \<le> m_SegmentRemainder c' \<and>
         m_SegmentRemainder c' \<le> int (fst (m_RunLengthLine c' ! nat (m_RealIndex c'))))"
  proof
    assume a: "\<not> IsAtEnd (advance (m_BI c)) \<and> 0 \<le> m_BeginIndex0 c \<and>
      m_BeginIndex0 c < int (width (regionLines (m_BI c) ! Suc (linePosition (m_BI c))))"
    then have "\<exists>c'. NextLine c = Inr c' \<and> m_BI c' = advance (m_BI c) \<and>
           m_RunLengthLine c' = regionLines (m_BI c) ! Suc (linePosition (m_BI c)) \<and>
           m_Index0 c' = m_BeginIndex0 c \<and>
           m_BeginIndex0 c' = m_BeginIndex0 c \<and> m_EndIndex0 c' = m_EndIndex0 c \<and>
           runAligned c' \<and> 1 \<le> m_SegmentRemainder c' \<and>
           m_SegmentRemainder c' \<le> int (fst (m_RunLengthLine c' ! nat (m_RealIndex c')))"
      by (intro NextLine_seeks) simp_all
    then show "\<exists>c'. NextLine c = Inr c' \<and>
         m_RunLengthLine c' = regionLines (m_BI c) ! Suc (linePosition (m_BI c)) \<and>
         m_Index0 c' = m_BeginIndex0 c \<and>
         m_BeginIndex0 c' = m_BeginIndex0 c \<and> m_EndIndex0 c' = m_EndIndex0 c \<and>
         runAligned c' \<and> 1 \<le> m_SegmentRemainder c' \<and>
         m_SegmentRemainder c' \<le> int (fst (m_RunLengthLine c' ! nat (m_RealIndex c')))"
      by blast
  qed
  show "IsAtEnd (advance (m_BI c)) \<longrightarrow>
      NextLine c = Inr (c\<lparr>m_BI := advance (m_BI c), m_Index0 := m_BeginIndex0 c\<rparr>) \<and>
      (\<forall>n. \<exists>c'. NextLines (Suc n) c = Inr c' \<and> IsAtEnd (m_BI c') \<and>
         m_Index0 c' = m_BeginIndex0 c)"
  proof (intro impI conjI allI)
    assume e: "IsAtEnd (advance (m_BI c))"
    then show "NextLine c = Inr (c\<lparr>m_BI := advance (m_BI c), m_Index0 := m_BeginIndex0 c\<rparr>)"
      by (rule NextLine_exhausted)
    fix n
    from NextLines_exhausted [OF e, of n]
    show "\<exists>c'. NextLines (Suc n) c = Inr c' \<and> IsAtEnd (m_BI c') \<and>
         m_Index0 c' = m_BeginIndex0 c" by blast
  qed
qed

theorem NextLine_behaviour_witness:
  "NextLine
     \<lparr>m_Index0 = 5, m_BeginIndex0 = 2, m_EndIndex0 = 5, m_RealIndex = 1,
      m_SegmentRemainder = 0, m_RunLengthLine = [(3, CHR ''A''), (2, CHR ''B'')],
      m_BI = \<lparr>regionLines = [[(3, CHR ''A''), (2, CHR ''B'')], [(1, CHR ''C''), (4, CHR ''D'')]],
              linePosition = 0\<rparr>\<rparr> =
   Inr \<lparr>m_Index0 = 2, m_BeginIndex0 = 2, m_EndIndex0 = 5, m_RealIndex = 1,
        m_SegmentRemainder = 3, m_RunLengthLine = [(1, CHR ''C''), (4, CHR ''D'')],
        m_BI = \<lparr>regionLines = [[(3, CHR ''A''), (2, CHR ''B'')], [(1, CHR ''C''), (4, CHR ''D'')]],
                linePosition = 1\<rparr>\<rparr> \<and>
   NextLine
     \<lparr>m_Index0 = 5, m_BeginIndex0 = 2, m_EndIndex0 = 5, m_RealIndex = 1,
      m_SegmentRemainder = 0, m_RunLengthLine = [(1, CHR ''C''), (4, CHR ''D'')],
      m_BI = \<lparr>regionLines = [[(3, CHR ''A''), (2, CHR ''B'')], [(1, CHR ''C''), (4, CHR ''D'')]],
              linePosition = 1\<rparr>\<rparr> =
   Inr \<lparr>m_Index0 = 2, m_BeginIndex0 = 2, m_EndIndex0 = 5, m_RealIndex = 1,
        m_SegmentRemainder = 0, m_RunLengthLine = [(1, CHR ''C''), (4, CHR ''D'')],
        m_BI = \<lparr>regionLines = [[(3, CHR ''A''), (2, CHR ''B'')], [(1, CHR ''C''), (4, CHR ''D'')]],
                linePosition = 2\<rparr>\<rparr>"
proof -
  let ?ls = "[[(3, CHR ''A''), (2, CHR ''B'')], [(1, CHR ''C''), (4, CHR ''D'')]]"
  let ?a = "\<lparr>m_Index0 = 5, m_BeginIndex0 = 2, m_EndIndex0 = 5, m_RealIndex = 1,
      m_SegmentRemainder = 0, m_RunLengthLine = [(3, CHR ''A''), (2, CHR ''B'')],
      m_BI = \<lparr>regionLines = ?ls, linePosition = 0\<rparr>\<rparr>"
  let ?b = "\<lparr>m_Index0 = 5, m_BeginIndex0 = 2, m_EndIndex0 = 5, m_RealIndex = 1,
      m_SegmentRemainder = 0, m_RunLengthLine = [(1, CHR ''C''), (4, CHR ''D'')],
      m_BI = \<lparr>regionLines = ?ls, linePosition = 1\<rparr>\<rparr>"
  have na: "\<not> IsAtEnd (advance (m_BI ?a))" by (simp add: IsAtEnd_def advance_def)
  have eb: "IsAtEnd (advance (m_BI ?b))" by (simp add: IsAtEnd_def advance_def)
  from NextLine_behaviour [of ?a] na
  have "NextLine ?a = SetIndexInternal (?a\<lparr>m_BI := advance (m_BI ?a)\<rparr>) (m_BeginIndex0 ?a)"
    by blast
  then have 1: "NextLine ?a =
      Inr \<lparr>m_Index0 = 2, m_BeginIndex0 = 2, m_EndIndex0 = 5, m_RealIndex = 1,
        m_SegmentRemainder = 3, m_RunLengthLine = [(1, CHR ''C''), (4, CHR ''D'')],
        m_BI = \<lparr>regionLines = ?ls, linePosition = 1\<rparr>\<rparr>"
    by (simp add: SetIndexInternal_def current_def IsAtEnd_def advance_def eval_nat_numeral)
  from NextLine_behaviour [of ?b] eb
  have "NextLine ?b = Inr (?b\<lparr>m_BI := advance (m_BI ?b), m_Index0 := m_BeginIndex0 ?b\<rparr>)"
    by blast
  then have 2: "NextLine ?b =
      Inr \<lparr>m_Index0 = 2, m_BeginIndex0 = 2, m_EndIndex0 = 5, m_RealIndex = 1,
        m_SegmentRemainder = 0, m_RunLengthLine = [(1, CHR ''C''), (4, CHR ''D'')],
        m_BI = \<lparr>regionLines = ?ls, linePosition = 2\<rparr>\<rparr>"
    by (simp add: advance_def)
  from 1 2 show ?thesis by simp
qed

end
